theory Spec2Isabelle
  imports Main "HOL-Library.Word"
begin

section \<open>Data model\<close>

text \<open>
  The repository holds three stages of one program. The first only reports records with
  equal digests and deletes nothing. The properties below are about the two later ones:
  the configuration-driven program of \<^verbatim>\<open>dupefile.go\<close> (rules read from a JSON file) and an
  earlier stage whose rule table is written into \<^verbatim>\<open>resolveDuplicate\<close> itself. Functions of
  the earlier stage that share a name with one of \<^verbatim>\<open>dupefile.go\<close> carry the suffix
  \<open>_early\<close>; \<^verbatim>\<open>readFile\<close> and \<^verbatim>\<open>isIdentical\<close> are the same text in both (the messages
  differ in capitals only) and are embedded once.

  Go strings and byte slices are sequences of bytes: a path is a \<^typ>\<open>string\<close> (a list of
  8-bit characters) and file contents are lists of 8-bit words. \<^verbatim>\<open>Size\<close> is an
  \<^verbatim>\<open>int64\<close>; it is only ever compared with a length, so it is an \<^typ>\<open>int\<close> here.
\<close>

type_synonym byte = "8 word"

record File =
  Basename :: string
  Path :: string
  Size :: int
  Hash :: "byte list"

record Rule =
  KeepDir :: string
  RemoveDir :: string

text \<open>The rule type local to \<^verbatim>\<open>resolveDuplicate\<close> of the earlier stage.\<close>

datatype LocalRule = LocalRule (KeepDirL: string) (RmDir: string)

subsection \<open>The file system and the log\<close>

text \<open>
  The operating system is the environment of the program. A path either names nothing or
  names a node; the node says what \<^verbatim>\<open>os.Open\<close>, reading, \<^verbatim>\<open>Close\<close> and \<^verbatim>\<open>os.Remove\<close>
  answer for it, so that every error branch of the source can be taken.
\<close>

record node =
  content :: "byte list"
  openFails :: bool
  readFails :: bool
  closeFails :: bool
  removeFails :: bool

type_synonym filesystem = "string \<rightharpoonup> node"

text \<open>One constructor per \<^verbatim>\<open>log.Printf\<close> format of the source, with its arguments in order.\<close>

datatype msg =
    Deleting string
  | WouldDelete string
  | DuplicateFilesFound string string
  | NoRuleFound string string
  | DuplicateFound string string
  | CollisionNotIdentical string string

text \<open>One constructor per \<^verbatim>\<open>fmt.Errorf\<close> format of the source, and one for the run-time panic.\<close>

datatype error =
    OpenFileErr string "byte list"
  | ReadAllErr string
  | CloseErr string
  | ShortRead string
  | OpenErr string
  | WriteToHashErr string
  | ShortReadWrite string
  | CompareErr string string error
  | HashCollisionErr string string
  | RemoveErr string
  | ConfigReadErr
  | ConfigDecodeErr
  | NoRulesFound
  | RuleMissingDir nat
  | RuleNotAbsolute nat
  | RuleIdenticalDirs nat
  | IndexOutOfRange

text \<open>
  The classes of the error taxonomy: a short read is the mismatch of the byte count with the
  recorded size, an IO error is a failure to open, read or close, a configuration error is any rejection of
  the rule file.
\<close>

fun isShortReadError :: "error \<Rightarrow> bool" where
  "isShortReadError (ShortRead p) = True"
| "isShortReadError (ShortReadWrite p) = True"
| "isShortReadError e = False"

fun isIOError :: "error \<Rightarrow> bool" where
  "isIOError (OpenFileErr p h) = True"
| "isIOError (ReadAllErr p) = True"
| "isIOError (CloseErr p) = True"
| "isIOError (OpenErr p) = True"
| "isIOError (WriteToHashErr p) = True"
| "isIOError e = False"

fun isConfigError :: "error \<Rightarrow> bool" where
  "isConfigError ConfigReadErr = True"
| "isConfigError ConfigDecodeErr = True"
| "isConfigError NoRulesFound = True"
| "isConfigError (RuleMissingDir i) = True"
| "isConfigError (RuleNotAbsolute i) = True"
| "isConfigError (RuleIdenticalDirs i) = True"
| "isConfigError e = False"

record world =
  fs :: filesystem
  logged :: "msg list"

definition say :: "msg \<Rightarrow> world \<Rightarrow> world" where
  "say m w = w\<lparr>logged := logged w @ [m]\<rparr>"

text \<open>
  \<^verbatim>\<open>os.Remove\<close>: removes the named file, or fails (\<open>None\<close>) when nothing has that name or
  the system refuses.
\<close>

definition os_Remove :: "string \<Rightarrow> filesystem \<Rightarrow> filesystem option" where
  "os_Remove p fsys =
     (case fsys p of
        None \<Rightarrow> None
      | Some nd \<Rightarrow> if removeFails nd then None else Some (fsys(p := None)))"

subsection \<open>Splitting a path\<close>

text \<open>
  \<^verbatim>\<open>path.Split\<close> of the Go standard library:
  \<^verbatim>\<open>i := strings.LastIndex(path, "/"); return path[:i+1], path[i+1:]\<close>,
  where \<^verbatim>\<open>LastIndex\<close> scans from the end and answers \<open>-1\<close> when there is no slash.
\<close>

fun lastIndexFrom :: "string \<Rightarrow> char \<Rightarrow> nat \<Rightarrow> int" where
  "lastIndexFrom s c 0 = - 1"
| "lastIndexFrom s c (Suc i) = (if s ! i = c then int i else lastIndexFrom s c i)"

definition LastIndex :: "string \<Rightarrow> char \<Rightarrow> int" where
  "LastIndex s c = lastIndexFrom s c (length s)"

definition path_Split :: "string \<Rightarrow> string \<times> string" where
  "path_Split p =
     (let i = LastIndex p (CHR ''/'')
      in (take (nat (i + 1)) p, drop (nat (i + 1)) p))"

text \<open>A directory string ends with the separator.\<close>

definition endsWithSeparator :: "string \<Rightarrow> bool" where
  "endsWithSeparator d = (d \<noteq> [] \<and> last d = CHR ''/'')"

section \<open>Identity Verifier\<close>

text \<open>
  \<^verbatim>\<open>readFile\<close>: open, read everything, close, then compare the length with the recorded
  size. The message of a failed open formats the whole record (path and hash).
\<close>

definition readFile :: "filesystem \<Rightarrow> File \<Rightarrow> error + byte list" where
  "readFile fsys file =
     (case fsys (Path file) of
        None \<Rightarrow> Inl (OpenFileErr (Path file) (Hash file))
      | Some nd \<Rightarrow>
          if openFails nd then Inl (OpenFileErr (Path file) (Hash file))
          else if readFails nd then Inl (ReadAllErr (Path file))
          else if closeFails nd then Inl (CloseErr (Path file))
          else if int (length (content nd)) \<noteq> Size file then Inl (ShortRead (Path file))
          else Inr (content nd))"

text \<open>The loop \<^verbatim>\<open>for i := range contents1\<close> of \<^verbatim>\<open>isIdentical\<close>, from index \<open>i\<close> on.\<close>

function compareFrom :: "byte list \<Rightarrow> byte list \<Rightarrow> nat \<Rightarrow> bool" where
  "compareFrom contents1 contents2 i =
     (if i < length contents1
      then (if contents1 ! i \<noteq> contents2 ! i then False
            else compareFrom contents1 contents2 (Suc i))
      else True)"
  by pat_completeness auto
termination
  by (relation "measure (\<lambda>(contents1, contents2, i). length contents1 - i)") auto

declare compareFrom.simps [simp del]

definition isIdentical :: "filesystem \<Rightarrow> File \<Rightarrow> File \<Rightarrow> error + bool" where
  "isIdentical fsys file1 file2 =
     (case readFile fsys file1 of
        Inl err \<Rightarrow> Inl err
      | Inr contents1 \<Rightarrow>
          (case readFile fsys file2 of
             Inl err \<Rightarrow> Inl err
           | Inr contents2 \<Rightarrow>
               if length contents1 \<noteq> length contents2 then Inr False
               else Inr (compareFrom contents1 contents2 0)))"

section \<open>Fingerprint Calculator\<close>

text \<open>
  \<^verbatim>\<open>calculateChecksums\<close> of \<^verbatim>\<open>dupefile.go\<close>. The digest function (\<^verbatim>\<open>crypto/md5\<close>) is a
  parameter \<open>hasher\<close>. The source writes the digest into the record through a pointer, so
  the records come back updated; a failing \<^verbatim>\<open>Close\<close> comes after the digest was stored.
  The progress counter written to standard output is the list of \<open>out\<close> values. The
  earlier stage has the same loop without the progress counter.
\<close>

datatype out = Progress nat nat | Newline

definition checksumFile ::
  "(byte list \<Rightarrow> byte list) \<Rightarrow> filesystem \<Rightarrow> File \<Rightarrow> error option \<times> File" where
  "checksumFile hasher fsys file =
     (case fsys (Path file) of
        None \<Rightarrow> (Some (OpenErr (Path file)), file)
      | Some nd \<Rightarrow>
          if openFails nd then (Some (OpenErr (Path file)), file)
          else if readFails nd then (Some (WriteToHashErr (Path file)), file)
          else if int (length (content nd)) \<noteq> Size file
            then (Some (ShortReadWrite (Path file)), file)
          else if closeFails nd
            then (Some (CloseErr (Path file)), file\<lparr>Hash := hasher (content nd)\<rparr>)
          else (None, file\<lparr>Hash := hasher (content nd)\<rparr>))"

fun checksumLoop ::
  "(byte list \<Rightarrow> byte list) \<Rightarrow> filesystem \<Rightarrow> nat \<Rightarrow> nat \<Rightarrow> File list \<Rightarrow> out list
     \<Rightarrow> error option \<times> File list \<times> out list" where
  "checksumLoop hasher fsys fileCount i [] printed = (None, [], printed @ [Newline])"
| "checksumLoop hasher fsys fileCount i (file # files) printed =
     (case checksumFile hasher fsys file of
        (Some err, file') \<Rightarrow> (Some err, file' # files, printed)
      | (None, file') \<Rightarrow>
          (case checksumLoop hasher fsys fileCount (i + 1) files
                  (printed @ [Progress (i + 1) fileCount]) of
             (res, files', printed') \<Rightarrow> (res, file' # files', printed')))"

definition calculateChecksums ::
  "(byte list \<Rightarrow> byte list) \<Rightarrow> filesystem \<Rightarrow> File list
     \<Rightarrow> error option \<times> File list \<times> out list" where
  "calculateChecksums hasher fsys files =
     checksumLoop hasher fsys (length files) 0 files []"

section \<open>Duplicate Index\<close>

text \<open>
  The map \<^verbatim>\<open>checksumToFile\<close> from a 16-byte array to a record. The key is built by
  \<^verbatim>\<open>for i, b := range file.Hash { checksum[i] = b }\<close> into a zeroed array of
  \<^verbatim>\<open>md5.Size\<close> bytes: a shorter hash is padded with zeros, a longer one panics with an
  index out of range (\<open>None\<close>).
\<close>

type_synonym index = "byte list \<rightharpoonup> File"

definition md5_Size :: nat where
  "md5_Size = 16"

definition toChecksum :: "byte list \<Rightarrow> byte list option" where
  "toChecksum h =
     (if md5_Size < length h then None
      else Some (h @ replicate (md5_Size - length h) 0))"

text \<open>
  The contract of the index in the specification's words, to compare the loops with:
  look the digest up; store the record when nothing is there.
\<close>

definition lookupOrInsert_spec :: "index \<Rightarrow> byte list \<Rightarrow> File \<Rightarrow> index \<times> File option \<times> bool" where
  "lookupOrInsert_spec idx digest record =
     (case idx digest of
        None \<Rightarrow> (idx(digest \<mapsto> record), None, False)
      | Some existing \<Rightarrow> (idx, Some existing, True))"

section \<open>Resolution Engine\<close>

subsection \<open>\<^verbatim>\<open>dupefile.go\<close>\<close>

text \<open>
  The loop over the rules of \<^verbatim>\<open>resolveDuplicate\<close>. The result is the pair the source
  returns (whether a rule was found, the error) and the world after it. In the second case
  (first record in the remove directory) the live branch logs and removes \<^verbatim>\<open>file1.Path\<close>,
  and the other branch prints \<^verbatim>\<open>file2.Path\<close>: both are as the source has them.
\<close>

fun resolveRules ::
  "Rule list \<Rightarrow> string \<Rightarrow> string \<Rightarrow> File \<Rightarrow> File \<Rightarrow> bool \<Rightarrow> world
     \<Rightarrow> (bool \<times> error option) \<times> world" where
  "resolveRules [] dir1 dir2 file1 file2 live w = ((False, None), w)"
| "resolveRules (rule # rules) dir1 dir2 file1 file2 live w =
     (if dir1 = KeepDir rule \<and> dir2 = RemoveDir rule then
        (if live then
           (case os_Remove (Path file2) (fs w) of
              None \<Rightarrow> ((True, Some (RemoveErr (Path file2))), say (Deleting (Path file2)) w)
            | Some fs' \<Rightarrow> ((True, None), (say (Deleting (Path file2)) w)\<lparr>fs := fs'\<rparr>))
         else ((True, None), say (WouldDelete (Path file2)) w))
      else if dir1 = RemoveDir rule \<and> dir2 = KeepDir rule then
        (if live then
           (case os_Remove (Path file1) (fs w) of
              None \<Rightarrow> ((True, Some (RemoveErr (Path file1))), say (Deleting (Path file1)) w)
            | Some fs' \<Rightarrow> ((True, None), (say (Deleting (Path file1)) w)\<lparr>fs := fs'\<rparr>))
         else ((True, None), say (WouldDelete (Path file2)) w))
      else resolveRules rules dir1 dir2 file1 file2 live w)"

definition resolveDuplicate ::
  "Rule list \<Rightarrow> File \<Rightarrow> File \<Rightarrow> bool \<Rightarrow> world \<Rightarrow> (bool \<times> error option) \<times> world" where
  "resolveDuplicate rules file1 file2 live w =
     resolveRules rules (fst (path_Split (Path file1))) (fst (path_Split (Path file2)))
       file1 file2 live w"

text \<open>
  One iteration of the loop of \<^verbatim>\<open>reportAndResolveDuplicates\<close>: an error ends the run,
  \<open>None\<close> goes on to the next record.
\<close>

definition resolveStep ::
  "Rule list \<Rightarrow> bool \<Rightarrow> File \<Rightarrow> index \<Rightarrow> world \<Rightarrow> error option \<times> index \<times> world" where
  "resolveStep rules live file checksumToFile w =
     (case toChecksum (Hash file) of
        None \<Rightarrow> (Some IndexOutOfRange, checksumToFile, w)
      | Some checksum \<Rightarrow>
          (case checksumToFile checksum of
             None \<Rightarrow> (None, checksumToFile(checksum \<mapsto> file), w)
           | Some foundFile \<Rightarrow>
               (case isIdentical (fs w) foundFile file of
                  Inl err \<Rightarrow>
                    (Some (CompareErr (Path foundFile) (Path file) err), checksumToFile, w)
                | Inr identical \<Rightarrow>
                    if \<not> identical
                    then (Some (HashCollisionErr (Path file) (Path foundFile)), checksumToFile, w)
                    else
                      (case resolveDuplicate rules foundFile file live
                              (say (DuplicateFilesFound (Path file) (Path foundFile)) w) of
                         ((foundRule, Some err), w') \<Rightarrow> (Some err, checksumToFile, w')
                       | ((foundRule, None), w') \<Rightarrow>
                           if \<not> foundRule
                           then (None, checksumToFile,
                                 say (NoRuleFound (Path file) (Path foundFile)) w')
                           else (None, checksumToFile, w')))))"

fun resolveLoop ::
  "Rule list \<Rightarrow> bool \<Rightarrow> File list \<Rightarrow> index \<Rightarrow> world \<Rightarrow> error option \<times> index \<times> world" where
  "resolveLoop rules live [] checksumToFile w = (None, checksumToFile, w)"
| "resolveLoop rules live (file # files) checksumToFile w =
     (case resolveStep rules live file checksumToFile w of
        (Some err, checksumToFile', w') \<Rightarrow> (Some err, checksumToFile', w')
      | (None, checksumToFile', w') \<Rightarrow> resolveLoop rules live files checksumToFile' w')"

definition reportAndResolveDuplicates ::
  "Rule list \<Rightarrow> File list \<Rightarrow> bool \<Rightarrow> world \<Rightarrow> error option \<times> world" where
  "reportAndResolveDuplicates rules files live w =
     (case resolveLoop rules live files Map.empty w of
        (res, checksumToFile, w') \<Rightarrow> (res, w'))"

subsection \<open>The earlier stage, with its rule table\<close>

definition rules_early :: "LocalRule list" where
  "rules_early =
     [LocalRule ''/home/will/t/testing/'' ''/home/will/t/testing/2/'',
      LocalRule ''/home/will/images/game screenshots/WoW_screenshots/''
                ''/home/will/images/game screenshots/WoW_screenshots/'',
      LocalRule ''/home/will/images/storey_albums/Albums/2016 Italy/''
                ''/home/will/images/tablet-2016-05-25/'',
      LocalRule ''/home/will/images/storey_albums/Albums/2016 Mexico/''
                ''/home/will/images/nexus-5x/'',
      LocalRule ''/home/will/images/storey_albums/Baltimore 2010 before alter/''
                ''/home/will/images/dad camera backup 2012-10-13/'',
      LocalRule ''/home/will/images/storey_albums/2011 Harrison hotsprings before alter/''
                ''/home/will/images/dad camera backup 2012-10-13/'',
      LocalRule ''/home/will/images/storey_albums/2010 Tofino before alter/''
                ''/home/will/images/dad camera backup 2012-10-13/'',
      LocalRule ''/home/will/images/storey_albums/2012 Father office photos/''
                ''/home/will/images/dad camera backup 2012-10-13/'',
      LocalRule ''/home/will/images/storey_albums/Florida 2011 before alter/''
                ''/home/will/images/dad camera backup 2012-10-13/'',
      LocalRule ''/home/will/images/storey_albums/2011 Block party before alter/''
                ''/home/will/images/dad camera backup 2012-10-13/'',
      LocalRule ''/home/will/images/storey_albums/2011 Granny birthday before alter/''
                ''/home/will/images/dad camera backup 2012-10-13/'']"

text \<open>
  The loop over the rules in the earlier stage: the line is logged before the \<^verbatim>\<open>live\<close>
  test, and a matching rule ends with \<^verbatim>\<open>continue\<close>, so the loop goes on to the next rule.
\<close>

fun resolveRules_early ::
  "LocalRule list \<Rightarrow> string \<Rightarrow> string \<Rightarrow> File \<Rightarrow> File \<Rightarrow> bool \<Rightarrow> world
     \<Rightarrow> error option \<times> world" where
  "resolveRules_early [] dir1 dir2 file1 file2 live w = (None, w)"
| "resolveRules_early (rule # rules) dir1 dir2 file1 file2 live w =
     (if dir1 = KeepDirL rule \<and> dir2 = RmDir rule then
        (if live then
           (case os_Remove (Path file2) (fs w) of
              None \<Rightarrow> (Some (RemoveErr (Path file2)), say (Deleting (Path file2)) w)
            | Some fs' \<Rightarrow>
                resolveRules_early rules dir1 dir2 file1 file2 live
                  ((say (Deleting (Path file2)) w)\<lparr>fs := fs'\<rparr>))
         else resolveRules_early rules dir1 dir2 file1 file2 live
                (say (Deleting (Path file2)) w))
      else if dir1 = RmDir rule \<and> dir2 = KeepDirL rule then
        (if live then
           (case os_Remove (Path file1) (fs w) of
              None \<Rightarrow> (Some (RemoveErr (Path file1)), say (Deleting (Path file1)) w)
            | Some fs' \<Rightarrow>
                resolveRules_early rules dir1 dir2 file1 file2 live
                  ((say (Deleting (Path file1)) w)\<lparr>fs := fs'\<rparr>))
         else resolveRules_early rules dir1 dir2 file1 file2 live
                (say (Deleting (Path file1)) w))
      else resolveRules_early rules dir1 dir2 file1 file2 live w)"

definition resolveDuplicate_early :: "File \<Rightarrow> File \<Rightarrow> bool \<Rightarrow> world \<Rightarrow> error option \<times> world" where
  "resolveDuplicate_early file1 file2 live w =
     resolveRules_early rules_early
       (fst (path_Split (Path file1))) (fst (path_Split (Path file2))) file1 file2 live w"

text \<open>One iteration of the loop of \<^verbatim>\<open>reportDupes\<close>.\<close>

definition reportStep ::
  "bool \<Rightarrow> File \<Rightarrow> index \<Rightarrow> world \<Rightarrow> error option \<times> index \<times> world" where
  "reportStep live file checksumToFile w =
     (case toChecksum (Hash file) of
        None \<Rightarrow> (Some IndexOutOfRange, checksumToFile, w)
      | Some checksum \<Rightarrow>
          (case checksumToFile checksum of
             Some foundFile \<Rightarrow>
               (case isIdentical (fs w) foundFile file of
                  Inl err \<Rightarrow>
                    (Some (CompareErr (Path foundFile) (Path file) err), checksumToFile, w)
                | Inr identical \<Rightarrow>
                    if identical
                    then
                      (case resolveDuplicate_early foundFile file live
                              (say (DuplicateFound (Path file) (Path foundFile)) w) of
                         (Some err, w') \<Rightarrow> (Some err, checksumToFile, w')
                       | (None, w') \<Rightarrow> (None, checksumToFile, w'))
                    else (None, checksumToFile,
                          say (CollisionNotIdentical (Path file) (Path foundFile)) w))
           | None \<Rightarrow> (None, checksumToFile(checksum \<mapsto> file), w)))"

fun reportLoop :: "bool \<Rightarrow> File list \<Rightarrow> index \<Rightarrow> world \<Rightarrow> error option \<times> index \<times> world" where
  "reportLoop live [] checksumToFile w = (None, checksumToFile, w)"
| "reportLoop live (file # files) checksumToFile w =
     (case reportStep live file checksumToFile w of
        (Some err, checksumToFile', w') \<Rightarrow> (Some err, checksumToFile', w')
      | (None, checksumToFile', w') \<Rightarrow> reportLoop live files checksumToFile' w')"

definition reportDupes :: "File list \<Rightarrow> bool \<Rightarrow> world \<Rightarrow> error option \<times> world" where
  "reportDupes files live w =
     (case reportLoop live files Map.empty w of
        (res, checksumToFile, w') \<Rightarrow> (res, w'))"

section \<open>Rule configuration\<close>

text \<open>
  \<^verbatim>\<open>readRules\<close>. Reading the file (\<^verbatim>\<open>ioutil.ReadFile\<close>) and decoding the JSON document
  into the rule list (\<^verbatim>\<open>json.Unmarshal\<close>) are parameters; \<open>None\<close> is their error. The
  checks follow the source, with the rule number \<^verbatim>\<open>i+i\<close> it puts into the message.
\<close>

fun checkRules :: "nat \<Rightarrow> Rule list \<Rightarrow> error option" where
  "checkRules i [] = None"
| "checkRules i (rule # rules) =
     (if length (KeepDir rule) = 0 \<or> length (RemoveDir rule) = 0
        then Some (RuleMissingDir (i + i))
      else if KeepDir rule ! 0 \<noteq> CHR ''/'' \<or> RemoveDir rule ! 0 \<noteq> CHR ''/''
        then Some (RuleNotAbsolute (i + i))
      else if KeepDir rule = RemoveDir rule
        then Some (RuleIdenticalDirs (i + i))
      else checkRules (i + 1) rules)"

definition readRules ::
  "(string \<Rightarrow> string option) \<Rightarrow> (string \<Rightarrow> Rule list option) \<Rightarrow> string \<Rightarrow> error + Rule list" where
  "readRules ioutil_ReadFile json_Unmarshal configFile =
     (case ioutil_ReadFile configFile of
        None \<Rightarrow> Inl ConfigReadErr
      | Some buf \<Rightarrow>
          (case json_Unmarshal buf of
             None \<Rightarrow> Inl ConfigDecodeErr
           | Some rules \<Rightarrow>
               if length rules = 0 then Inl NoRulesFound
               else (case checkRules 0 rules of
                       Some err \<Rightarrow> Inl err
                     | None \<Rightarrow> Inr rules)))"

text \<open>The checks a rule has to pass, as the specification lists them.\<close>

definition validRule :: "Rule \<Rightarrow> bool" where
  "validRule r =
     (KeepDir r \<noteq> [] \<and> RemoveDir r \<noteq> [] \<and>
      hd (KeepDir r) = CHR ''/'' \<and> hd (RemoveDir r) = CHR ''/'' \<and>
      KeepDir r \<noteq> RemoveDir r)"

text \<open>
  The matching condition in the specification's words: the two parent directories are the
  keep and the remove directory of the rule, in either orientation. The rule that decides
  is the first one of the list that matches, \<open>find (ruleMatches dir1 dir2) rules\<close>.
\<close>

definition ruleMatches :: "string \<Rightarrow> string \<Rightarrow> Rule \<Rightarrow> bool" where
  "ruleMatches dir1 dir2 rule =
     (dir1 = KeepDir rule \<and> dir2 = RemoveDir rule \<or>
      dir1 = RemoveDir rule \<and> dir2 = KeepDir rule)"

definition localRuleMatches :: "string \<Rightarrow> string \<Rightarrow> LocalRule \<Rightarrow> bool" where
  "localRuleMatches dir1 dir2 rule =
     (dir1 = KeepDirL rule \<and> dir2 = RmDir rule \<or>
      dir1 = RmDir rule \<and> dir2 = KeepDirL rule)"

text \<open>Two rules of the table name the same two directories, in the same or the other order.\<close>

definition sameDirs :: "LocalRule \<Rightarrow> LocalRule \<Rightarrow> bool" where
  "sameDirs r r' =
     (KeepDirL r = KeepDirL r' \<and> RmDir r = RmDir r' \<or>
      KeepDirL r = RmDir r' \<and> RmDir r = KeepDirL r')"




section \<open>Worked inputs\<close>

text \<open>
  A small tree used to run the definitions: \<^verbatim>\<open>/a/x.png\<close> and \<^verbatim>\<open>/b/y.png\<close> hold the same
  three bytes, \<^verbatim>\<open>/b/z.png\<close> differs in the last one, and all three records carry the same
  digest.
\<close>

definition plainNode :: "byte list \<Rightarrow> node" where
  "plainNode bs =
     \<lparr>content = bs, openFails = False, readFails = False, closeFails = False,
      removeFails = False\<rparr>"

definition mkFile :: "string \<Rightarrow> string \<Rightarrow> int \<Rightarrow> byte list \<Rightarrow> File" where
  "mkFile b p n h = \<lparr>Basename = b, Path = p, Size = n, Hash = h\<rparr>"

definition digestD :: "byte list" where
  "digestD = [7, 7, 7, 7, 7, 7, 7, 7, 7, 7, 7, 7, 7, 7, 7, 7]"

definition fileX :: File where
  "fileX = mkFile ''x.png'' ''/a/x.png'' 3 digestD"

definition fileY :: File where
  "fileY = mkFile ''y.png'' ''/b/y.png'' 3 digestD"

definition fileZ :: File where
  "fileZ = mkFile ''z.png'' ''/b/z.png'' 3 digestD"

definition treeFs :: filesystem where
  "treeFs =
     [''/a/x.png'' \<mapsto> plainNode [1, 2, 3],
      ''/b/y.png'' \<mapsto> plainNode [1, 2, 3],
      ''/b/z.png'' \<mapsto> plainNode [1, 2, 4]]"

definition tree :: world where
  "tree = \<lparr>fs = treeFs, logged = []\<rparr>"

definition ruleAB :: Rule where
  "ruleAB = \<lparr>KeepDir = ''/a/'', RemoveDir = ''/b/''\<rparr>"

text \<open>The rule of the README, whose directories are written without the final slash.\<close>

definition ruleNoSlash :: Rule where
  "ruleNoSlash = \<lparr>KeepDir = ''/a'', RemoveDir = ''/b''\<rparr>"

text \<open>A record found by scanning the directory \<^verbatim>\<open>.\<close>: its path has no slash.\<close>

definition fileBare :: File where
  "fileBare = mkFile ''x.png'' ''x.png'' 3 digestD"

text \<open>
  A file of three bytes that was recorded with five, in a tree where closing it succeeds and
  in one where closing it fails.
\<close>

definition fileShrunk :: File where
  "fileShrunk = mkFile ''s.png'' ''/a/s.png'' 5 []"

definition shrunkFs :: filesystem where
  "shrunkFs = [''/a/s.png'' \<mapsto> plainNode [1, 2, 3]]"

definition shrunkCloseFs :: filesystem where
  "shrunkCloseFs = [''/a/s.png'' \<mapsto> (plainNode [1, 2, 3])\<lparr>closeFails := True\<rparr>]"



definition testingFs :: filesystem where
  "testingFs =
     [''/home/will/t/testing/a.png'' \<mapsto> plainNode [1, 2, 3],
      ''/home/will/t/testing/2/b.png'' \<mapsto> plainNode [1, 2, 3]]"

definition testing :: world where
  "testing = \<lparr>fs = testingFs, logged = []\<rparr>"




section \<open>Properties\<close>

subsection \<open>Identity Verifier\<close>

lemma compareFrom_all:
  "compareFrom c1 c2 i = (\<forall>j. i \<le> j \<and> j < length c1 \<longrightarrow> c1 ! j = c2 ! j)"
proof (induction c1 c2 i rule: compareFrom.induct)
  case (1 c1 c2 i)
  show ?case
  proof (cases "i < length c1")
    case False
    then show ?thesis by (auto simp add: compareFrom.simps [of c1 c2 i])
  next
    case True
    show ?thesis
    proof (cases "c1 ! i = c2 ! i")
      case False
      with True show ?thesis
        by (auto simp add: compareFrom.simps [of c1 c2 i])
    next
      case same: True
      have "compareFrom c1 c2 i = compareFrom c1 c2 (Suc i)"
        using True same by (simp add: compareFrom.simps [of c1 c2 i])
      also have "\<dots> = (\<forall>j. Suc i \<le> j \<and> j < length c1 \<longrightarrow> c1 ! j = c2 ! j)"
        using "1.IH" True same by simp
      also have "\<dots> = (\<forall>j. i \<le> j \<and> j < length c1 \<longrightarrow> c1 ! j = c2 ! j)"
        using same by (metis Suc_leI le_neq_implies_less Suc_leD)
      finally show ?thesis .
    qed
  qed
qed

lemma readFile_length:
  "readFile fsys file = Inr c \<Longrightarrow> int (length c) = Size file"
  by (auto simp add: readFile_def split: option.splits if_splits)

text \<open>
  C7. \<^verbatim>\<open>isIdentical\<close> answers true exactly when both files are read, their sizes are equal
  and every byte is the same at every position; it answers false exactly when both files are
  read and the sizes differ or some position holds different bytes.
\<close>

theorem isIdentical_true_iff_same_bytes:
  "(isIdentical fsys file1 file2 = Inr True) =
     (\<exists>c1 c2. readFile fsys file1 = Inr c1 \<and> readFile fsys file2 = Inr c2 \<and>
        Size file1 = Size file2 \<and> (\<forall>i<length c1. c1 ! i = c2 ! i))
   \<and> (isIdentical fsys file1 file2 = Inr False) =
     (\<exists>c1 c2. readFile fsys file1 = Inr c1 \<and> readFile fsys file2 = Inr c2 \<and>
        (Size file1 \<noteq> Size file2 \<or> (\<exists>i<length c1. c1 ! i \<noteq> c2 ! i)))"
proof (cases "readFile fsys file1")
  case (Inl e)
  then show ?thesis by (simp add: isIdentical_def)
next
  case c1: (Inr c1)
  show ?thesis
  proof (cases "readFile fsys file2")
    case (Inl e)
    with c1 show ?thesis by (simp add: isIdentical_def)
  next
    case c2: (Inr c2)
    have l1: "int (length c1) = Size file1" using c1 by (rule readFile_length)
    have l2: "int (length c2) = Size file2" using c2 by (rule readFile_length)
    have sz: "(Size file1 = Size file2) = (length c1 = length c2)"
      using l1 l2 by auto
    show ?thesis
      using c1 c2 by (auto simp add: isIdentical_def compareFrom_all sz)
  qed
qed

lemmas tree_defs =
  tree_def treeFs_def plainNode_def mkFile_def fileX_def fileY_def fileZ_def digestD_def

theorem isIdentical_true_iff_same_bytes_witness:
  "isIdentical treeFs fileX fileY = Inr True \<and> isIdentical treeFs fileY fileZ = Inr False"
proof
  have "readFile treeFs fileX = Inr [1, 2, 3] \<and> readFile treeFs fileY = Inr [1, 2, 3]
      \<and> Size fileX = Size fileY \<and> (\<forall>i<length [1, 2, 3 :: byte]. [1, 2, 3 :: byte] ! i = [1, 2, 3] ! i)"
    by (simp add: readFile_def tree_defs)
  then show "isIdentical treeFs fileX fileY = Inr True"
    using isIdentical_true_iff_same_bytes [of treeFs fileX fileY] by blast
next
  have "readFile treeFs fileY = Inr [1, 2, 3] \<and> readFile treeFs fileZ = Inr [1, 2, 4]
      \<and> (2::nat) < length [1, 2, 3 :: byte] \<and> [1, 2, 3 :: byte] ! 2 \<noteq> [1, 2, 4] ! 2"
    by (simp add: readFile_def tree_defs)
  then show "isIdentical treeFs fileY fileZ = Inr False"
    using isIdentical_true_iff_same_bytes [of treeFs fileY fileZ] by blast
qed

subsection \<open>Rule configuration\<close>

lemma checkRules_None:
  "(checkRules i rules = None) = (\<forall>r\<in>set rules. validRule r)"
  by (induction rules arbitrary: i) (auto simp add: validRule_def hd_conv_nth)

lemma checkRules_config: "checkRules i rules = Some e \<Longrightarrow> isConfigError e"
  by (induction rules arbitrary: i) (auto split: if_splits)

text \<open>
  C8. \<^verbatim>\<open>readRules\<close> returns the rule list exactly when the file is read and decoded, the
  list is not empty and every rule has a keep and a remove directory that are not empty,
  start with a slash and differ; every other outcome is a configuration error.
\<close>

theorem readRules_accepts_iff_valid:
  "(readRules rf um cf = Inr rules) =
     (\<exists>buf. rf cf = Some buf \<and> um buf = Some rules \<and> rules \<noteq> [] \<and>
        (\<forall>r\<in>set rules. KeepDir r \<noteq> [] \<and> RemoveDir r \<noteq> [] \<and>
           hd (KeepDir r) = CHR ''/'' \<and> hd (RemoveDir r) = CHR ''/'' \<and>
           KeepDir r \<noteq> RemoveDir r))
   \<and> (\<forall>e. readRules rf um cf = Inl e \<longrightarrow> isConfigError e)"
proof (intro conjI allI impI)
  show "(readRules rf um cf = Inr rules) =
     (\<exists>buf. rf cf = Some buf \<and> um buf = Some rules \<and> rules \<noteq> [] \<and>
        (\<forall>r\<in>set rules. KeepDir r \<noteq> [] \<and> RemoveDir r \<noteq> [] \<and>
           hd (KeepDir r) = CHR ''/'' \<and> hd (RemoveDir r) = CHR ''/'' \<and>
           KeepDir r \<noteq> RemoveDir r))"
  proof (cases "rf cf")
    case None
    then show ?thesis by (simp add: readRules_def)
  next
    case buf: (Some buf)
    show ?thesis
    proof (cases "um buf")
      case None
      with buf show ?thesis by (simp add: readRules_def)
    next
      case rs: (Some rs)
      show ?thesis
      proof (cases "checkRules 0 rs")
        case None
        then have "\<forall>r\<in>set rs. validRule r" by (simp add: checkRules_None)
        with buf rs None show ?thesis
          by (auto simp add: readRules_def validRule_def)
      next
        case (Some e)
        then have "\<not> (\<forall>r\<in>set rs. validRule r)"
          using checkRules_None [of 0 rs] by simp
        with buf rs Some show ?thesis
          by (auto simp add: readRules_def validRule_def)
      qed
    qed
  qed
next
  fix e
  assume "readRules rf um cf = Inl e"
  then show "isConfigError e"
    by (auto simp add: readRules_def split: option.splits if_splits dest: checkRules_config)
qed

theorem readRules_accepts_iff_valid_witness:
  "readRules (\<lambda>f. Some ''doc'') (\<lambda>b. Some [ruleAB]) ''rules.json'' = Inr [ruleAB]
   \<and> isConfigError NoRulesFound
   \<and> readRules (\<lambda>f. Some ''doc'') (\<lambda>b. Some []) ''rules.json'' = Inl NoRulesFound"
proof (intro conjI)
  have "\<exists>buf. (\<lambda>f. Some ''doc'') ''rules.json'' = Some buf
          \<and> (\<lambda>b. Some [ruleAB]) buf = Some [ruleAB] \<and> [ruleAB] \<noteq> [] \<and>
        (\<forall>r\<in>set [ruleAB]. KeepDir r \<noteq> [] \<and> RemoveDir r \<noteq> [] \<and>
           hd (KeepDir r) = CHR ''/'' \<and> hd (RemoveDir r) = CHR ''/'' \<and>
           KeepDir r \<noteq> RemoveDir r)"
    by (simp add: ruleAB_def)
  then show "readRules (\<lambda>f. Some ''doc'') (\<lambda>b. Some [ruleAB]) ''rules.json'' = Inr [ruleAB]"
    using readRules_accepts_iff_valid
      [of "\<lambda>f. Some ''doc''" "\<lambda>b. Some [ruleAB]" "''rules.json''" "[ruleAB]"]
    by blast
next
  have e: "readRules (\<lambda>f. Some ''doc'') (\<lambda>b. Some []) ''rules.json'' = Inl NoRulesFound"
    by (simp add: readRules_def)
  then show "isConfigError NoRulesFound"
    using readRules_accepts_iff_valid
      [of "\<lambda>f. Some ''doc''" "\<lambda>b. Some []" "''rules.json''"]
    by blast
  show "readRules (\<lambda>f. Some ''doc'') (\<lambda>b. Some []) ''rules.json'' = Inl NoRulesFound"
    by (rule e)
qed

subsection \<open>Resolution Engine\<close>

lemma resolveRules_found:
  assumes "ruleMatches dir1 dir2 rule"
  shows "resolveRules (rule # rules) dir1 dir2 file1 file2 live w =
   resolveRules [rule] dir1 dir2 file1 file2 live w"
  using assms unfolding ruleMatches_def
  by (cases "dir1 = KeepDir rule"; cases "dir2 = RemoveDir rule"; cases "dir1 = RemoveDir rule"; 
      cases "dir2 = KeepDir rule"; simp)

lemma resolveRules_skip:
  assumes "\<not> ruleMatches dir1 dir2 rule"
  shows "resolveRules (rule # rules) dir1 dir2 file1 file2 live w =
   resolveRules rules dir1 dir2 file1 file2 live w"
  using assms unfolding ruleMatches_def
  by (cases "dir1 = KeepDir rule"; cases "dir2 = RemoveDir rule"; cases "dir1 = RemoveDir rule"; 
      cases "dir2 = KeepDir rule"; simp)

lemma resolveRules_find:
  "resolveRules rules dir1 dir2 file1 file2 live w =
     (case find (ruleMatches dir1 dir2) rules of
        None \<Rightarrow> ((False, None), w)
      | Some rule \<Rightarrow> resolveRules [rule] dir1 dir2 file1 file2 live w)"
proof (induction rules)
  case Nil
  show ?case by simp
next
  case (Cons rule rules)
  show ?case
  proof (cases "ruleMatches dir1 dir2 rule")
    case True
    then show ?thesis by (simp add: resolveRules_found [of _ _ _ rules] del: resolveRules.simps)
  next
    case False
    then show ?thesis using Cons.IH by (simp add: resolveRules_skip del: resolveRules.simps)
  qed
qed

lemma resolveRules_early_skip:
  assumes "\<not> localRuleMatches dir1 dir2 rule"
  shows "resolveRules_early (rule # rules) dir1 dir2 file1 file2 live w =
   resolveRules_early rules dir1 dir2 file1 file2 live w"
  using assms unfolding localRuleMatches_def
  by (cases "dir1 = KeepDirL rule"; cases "dir2 = RmDir rule"; cases "dir1 = RmDir rule"; 
      cases "dir2 = KeepDirL rule"; simp)

lemma resolveRules_early_nomatch:
  "\<forall>r\<in>set rules. \<not> localRuleMatches dir1 dir2 r \<Longrightarrow>
   resolveRules_early rules dir1 dir2 file1 file2 live w = (None, w)"
proof (induction rules)
  case Nil
  show ?case by simp
next
  case (Cons rule rules)
  then show ?case by (simp add: resolveRules_early_skip del: resolveRules_early.simps)
qed

lemma resolveRules_early_found:
  assumes "localRuleMatches dir1 dir2 rule"
    and "\<forall>r\<in>set rules. \<not> localRuleMatches dir1 dir2 r"
  shows "resolveRules_early (rule # rules) dir1 dir2 file1 file2 live w =
   resolveRules_early [rule] dir1 dir2 file1 file2 live w"
proof -
  have tail: "\<And>w'. resolveRules_early rules dir1 dir2 file1 file2 live w' = (None, w')"
    using assms(2) by (rule resolveRules_early_nomatch)
  show ?thesis
    using assms(1) tail unfolding localRuleMatches_def
    by (cases "dir1 = KeepDirL rule"; cases "dir2 = RmDir rule"; cases "dir1 = RmDir rule"; 
      cases "dir2 = KeepDirL rule"; cases live; simp split: option.splits)
qed

lemma sameDirs_if_both_match:
  "localRuleMatches dir1 dir2 r \<Longrightarrow> localRuleMatches dir1 dir2 r' \<Longrightarrow> sameDirs r r'"
  by (auto simp add: localRuleMatches_def sameDirs_def)

lemma resolveRules_early_find:
  assumes "distinct rules" and "\<forall>r\<in>set rules. \<forall>r'\<in>set rules. sameDirs r r' \<longrightarrow> r = r'"
  shows "resolveRules_early rules dir1 dir2 file1 file2 live w =
     (case find (localRuleMatches dir1 dir2) rules of
        None \<Rightarrow> (None, w)
      | Some rule \<Rightarrow> resolveRules_early [rule] dir1 dir2 file1 file2 live w)"
  using assms
proof (induction rules)
  case Nil
  show ?case by simp
next
  case (Cons rule rules)
  show ?case
  proof (cases "localRuleMatches dir1 dir2 rule")
    case True
    have "\<forall>r\<in>set rules. \<not> localRuleMatches dir1 dir2 r"
    proof
      fix r assume r: "r \<in> set rules"
      show "\<not> localRuleMatches dir1 dir2 r"
      proof
        assume "localRuleMatches dir1 dir2 r"
        with True have "sameDirs rule r" by (rule sameDirs_if_both_match)
        with Cons.prems(2) r have "rule = r" by simp
        with Cons.prems(1) r show False by simp
      qed
    qed
    with True show ?thesis
      by (simp add: resolveRules_early_found [of _ _ _ rules] del: resolveRules_early.simps)
  next
    case False
    moreover have "distinct rules" "\<forall>r\<in>set rules. \<forall>r'\<in>set rules. sameDirs r r' \<longrightarrow> r = r'"
      using Cons.prems by simp_all
    ultimately show ?thesis using Cons.IH
      by (simp add: resolveRules_early_skip del: resolveRules_early.simps)
  qed
qed

lemma rules_early_distinct: "distinct rules_early"
  by (simp add: rules_early_def)

lemma rules_early_unique:
  "\<forall>r\<in>set rules_early. \<forall>r'\<in>set rules_early. sameDirs r r' \<longrightarrow> r = r'"
  by (simp add: rules_early_def sameDirs_def)

subsection \<open>Parent directories\<close>

lemma lastIndexFrom_range:
  "lastIndexFrom s c n = - 1 \<or> (0 \<le> lastIndexFrom s c n \<and> lastIndexFrom s c n < int n
     \<and> s ! nat (lastIndexFrom s c n) = c)"
  by (induction n) auto

lemma lastIndexFrom_none:
  "(lastIndexFrom s c n = - 1) = (\<forall>i<n. s ! i \<noteq> c)"
  by (induction n) (auto simp add: less_Suc_eq)

lemma path_Split_dir:
  "fst (path_Split p) = [] \<or> endsWithSeparator (fst (path_Split p))"
proof -
  let ?i = "LastIndex p (CHR ''/'')"
  from lastIndexFrom_range [of p "CHR ''/''" "length p"]
  consider "?i = - 1" | "0 \<le> ?i" "?i < int (length p)" "p ! nat ?i = CHR ''/''"
    by (auto simp add: LastIndex_def)
  then show ?thesis
  proof cases
    case 1
    then show ?thesis by (simp add: path_Split_def)
  next
    case 2
    then have n: "nat (?i + 1) = Suc (nat ?i)" "nat ?i < length p" by auto
    then have "take (nat (?i + 1)) p = take (nat ?i) p @ [CHR ''/'']"
      using 2 by (simp add: take_Suc_conv_app_nth)
    then show ?thesis by (simp add: path_Split_def Let_def endsWithSeparator_def)
  qed
qed

lemma path_Split_empty:
  "(fst (path_Split p) = []) = (CHR ''/'' \<notin> set p)"
proof -
  let ?i = "LastIndex p (CHR ''/'')"
  have none: "(?i = - 1) = (CHR ''/'' \<notin> set p)"
    by (auto simp add: LastIndex_def lastIndexFrom_none in_set_conv_nth)
  from lastIndexFrom_range [of p "CHR ''/''" "length p"]
  have "?i = - 1 \<or> 0 \<le> ?i \<and> ?i < int (length p)" by (auto simp add: LastIndex_def)
  then have "(fst (path_Split p) = []) = (?i = - 1)"
    by (auto simp add: path_Split_def Let_def)
  with none show ?thesis by simp
qed

lemma resolveRules_single_found:
  "fst (fst (resolveRules [rule] dir1 dir2 file1 file2 live w)) = ruleMatches dir1 dir2 rule"
  unfolding ruleMatches_def
  by (cases "dir1 = KeepDir rule"; cases "dir2 = RemoveDir rule"; cases "dir1 = RemoveDir rule";
      cases "dir2 = KeepDir rule"; cases live; simp split: option.splits)

text \<open>
  C10, as amended. The parent directory of a path is empty exactly when the path has no
  separator, and otherwise ends with the separator. A rule matches exactly when the two
  parent directories are equal, as strings, to its keep and remove directory in one of the
  two orientations; so a rule with non-empty directories (as \<^verbatim>\<open>readRules\<close> requires) one
  of which does not end with the separator matches no pair of files.
\<close>

theorem parent_directory_empty_or_separator:
  "(fst (path_Split p) = []) = (CHR ''/'' \<notin> set p)
   \<and> (fst (path_Split p) = [] \<or> endsWithSeparator (fst (path_Split p)))
   \<and> fst (fst (resolveDuplicate [rule] file1 file2 live w)) =
       (fst (path_Split (Path file1)) = KeepDir rule \<and>
        fst (path_Split (Path file2)) = RemoveDir rule \<or>
        fst (path_Split (Path file1)) = RemoveDir rule \<and>
        fst (path_Split (Path file2)) = KeepDir rule)
   \<and> (KeepDir rule \<noteq> [] \<and> RemoveDir rule \<noteq> [] \<and>
       (\<not> endsWithSeparator (KeepDir rule) \<or> \<not> endsWithSeparator (RemoveDir rule)) \<longrightarrow>
       resolveDuplicate (rule # rules) file1 file2 live w =
       resolveDuplicate rules file1 file2 live w)"
proof (intro conjI impI)
  show "(fst (path_Split p) = []) = (CHR ''/'' \<notin> set p)" by (rule path_Split_empty)
  show "fst (path_Split p) = [] \<or> endsWithSeparator (fst (path_Split p))"
    by (rule path_Split_dir)
  show "fst (fst (resolveDuplicate [rule] file1 file2 live w)) =
       (fst (path_Split (Path file1)) = KeepDir rule \<and>
        fst (path_Split (Path file2)) = RemoveDir rule \<or>
        fst (path_Split (Path file1)) = RemoveDir rule \<and>
        fst (path_Split (Path file2)) = KeepDir rule)"
    unfolding resolveDuplicate_def resolveRules_single_found ruleMatches_def ..
next
  assume a: "KeepDir rule \<noteq> [] \<and> RemoveDir rule \<noteq> [] \<and>
       (\<not> endsWithSeparator (KeepDir rule) \<or> \<not> endsWithSeparator (RemoveDir rule))"
  let ?d1 = "fst (path_Split (Path file1))" and ?d2 = "fst (path_Split (Path file2))"
  have "\<not> ruleMatches ?d1 ?d2 rule"
    using a path_Split_dir [of "Path file1"] path_Split_dir [of "Path file2"]
    by (auto simp add: ruleMatches_def)
  then show "resolveDuplicate (rule # rules) file1 file2 live w =
       resolveDuplicate rules file1 file2 live w"
    unfolding resolveDuplicate_def by (rule resolveRules_skip)
qed

theorem parent_directory_empty_or_separator_witness:
  "resolveDuplicate [ruleNoSlash] fileX fileY True tree = ((False, None), tree)"
proof -
  have "KeepDir ruleNoSlash \<noteq> [] \<and> RemoveDir ruleNoSlash \<noteq> [] \<and>
       (\<not> endsWithSeparator (KeepDir ruleNoSlash) \<or> \<not> endsWithSeparator (RemoveDir ruleNoSlash))"
    by (simp add: ruleNoSlash_def endsWithSeparator_def)
  then have "resolveDuplicate [ruleNoSlash] fileX fileY True tree =
       resolveDuplicate [] fileX fileY True tree"
    using parent_directory_empty_or_separator [of _ ruleNoSlash fileX fileY True tree "[]"]
    by blast
  then show ?thesis by (simp add: resolveDuplicate_def)
qed

text \<open>
  C10 as stated fails: the parent directory of a path without a separator does not end with
  a separator.
\<close>

theorem parent_directory_not_separator_counterexample:
  "\<not> endsWithSeparator (fst (path_Split (Path fileBare)))"
  by (simp add: fileBare_def mkFile_def path_Split_def LastIndex_def endsWithSeparator_def)

subsection \<open>Deletions\<close>

lemma os_Remove_Some: "os_Remove p fsys = Some fs' \<Longrightarrow> fs' = fsys(p := None)"
  by (auto simp add: os_Remove_def split: option.splits if_splits)

lemma fs_say [simp]: "fs (say m w) = fs w"
  by (simp add: say_def)

lemma resolveRules_single_fs:
  "fs (snd (resolveRules [rule] dir1 dir2 file1 file2 live w)) = fs w \<or>
   fs (snd (resolveRules [rule] dir1 dir2 file1 file2 live w)) = (fs w)(Path file1 := None) \<or>
   fs (snd (resolveRules [rule] dir1 dir2 file1 file2 live w)) = (fs w)(Path file2 := None)"
  by (cases "dir1 = KeepDir rule"; cases "dir2 = RemoveDir rule"; cases "dir1 = RemoveDir rule"; 
      cases "dir2 = KeepDir rule"; cases live;
      auto split: option.splits dest: os_Remove_Some)

lemma resolveRules_early_single_fs:
  "fs (snd (resolveRules_early [rule] dir1 dir2 file1 file2 live w)) = fs w \<or>
   fs (snd (resolveRules_early [rule] dir1 dir2 file1 file2 live w)) = (fs w)(Path file1 := None) \<or>
   fs (snd (resolveRules_early [rule] dir1 dir2 file1 file2 live w)) = (fs w)(Path file2 := None)"
  by (cases "dir1 = KeepDirL rule"; cases "dir2 = RmDir rule"; cases "dir1 = RmDir rule"; 
      cases "dir2 = KeepDirL rule"; cases live;
      auto split: option.splits dest: os_Remove_Some)

lemma resolveDuplicate_fs:
  "fs (snd (resolveDuplicate rules file1 file2 live w)) = fs w \<or>
   fs (snd (resolveDuplicate rules file1 file2 live w)) = (fs w)(Path file1 := None) \<or>
   fs (snd (resolveDuplicate rules file1 file2 live w)) = (fs w)(Path file2 := None)"
proof -
  let ?d1 = "fst (path_Split (Path file1))" and ?d2 = "fst (path_Split (Path file2))"
  show ?thesis
  proof (cases "find (ruleMatches ?d1 ?d2) rules")
    case None
    then show ?thesis
      using resolveRules_find [of rules ?d1 ?d2 file1 file2 live w]
      by (simp add: resolveDuplicate_def)
  next
    case (Some rule)
    then have "resolveDuplicate rules file1 file2 live w =
        resolveRules [rule] ?d1 ?d2 file1 file2 live w"
      using resolveRules_find [of rules ?d1 ?d2 file1 file2 live w]
      by (simp add: resolveDuplicate_def)
    then show ?thesis
      using resolveRules_single_fs [of rule ?d1 ?d2 file1 file2 live w] by simp
  qed
qed

lemma resolveDuplicate_early_fs:
  "fs (snd (resolveDuplicate_early file1 file2 live w)) = fs w \<or>
   fs (snd (resolveDuplicate_early file1 file2 live w)) = (fs w)(Path file1 := None) \<or>
   fs (snd (resolveDuplicate_early file1 file2 live w)) = (fs w)(Path file2 := None)"
proof -
  let ?d1 = "fst (path_Split (Path file1))" and ?d2 = "fst (path_Split (Path file2))"
  note find = resolveRules_early_find [OF rules_early_distinct rules_early_unique,
      of ?d1 ?d2 file1 file2 live w]
  show ?thesis
  proof (cases "find (localRuleMatches ?d1 ?d2) rules_early")
    case None
    then show ?thesis
      using find by (simp add: resolveDuplicate_early_def)
  next
    case (Some rule)
    then have "resolveDuplicate_early file1 file2 live w =
        resolveRules_early [rule] ?d1 ?d2 file1 file2 live w"
      using find by (simp add: resolveDuplicate_early_def)
    then show ?thesis
      using resolveRules_early_single_fs [of rule ?d1 ?d2 file1 file2 live w] by simp
  qed
qed

text \<open>
  C1. Resolving a duplicate pair, live or not and with any rules, leaves the file system as
  it was or removes exactly one of the two paths; when the two paths differ, at least one of
  them still holds what it held before.
\<close>

theorem resolution_deletes_at_most_one:
  "(fs (snd (resolveDuplicate rules file1 file2 live w)) = fs w \<or>
    fs (snd (resolveDuplicate rules file1 file2 live w)) = (fs w)(Path file1 := None) \<or>
    fs (snd (resolveDuplicate rules file1 file2 live w)) = (fs w)(Path file2 := None))
   \<and> (fs (snd (resolveDuplicate_early file1 file2 live w)) = fs w \<or>
    fs (snd (resolveDuplicate_early file1 file2 live w)) = (fs w)(Path file1 := None) \<or>
    fs (snd (resolveDuplicate_early file1 file2 live w)) = (fs w)(Path file2 := None))
   \<and> (Path file1 \<noteq> Path file2 \<longrightarrow>
       (fs (snd (resolveDuplicate rules file1 file2 live w)) (Path file1) = fs w (Path file1) \<or>
        fs (snd (resolveDuplicate rules file1 file2 live w)) (Path file2) = fs w (Path file2))
     \<and> (fs (snd (resolveDuplicate_early file1 file2 live w)) (Path file1) = fs w (Path file1) \<or>
        fs (snd (resolveDuplicate_early file1 file2 live w)) (Path file2) = fs w (Path file2)))"
proof (intro conjI impI)
  show a: "fs (snd (resolveDuplicate rules file1 file2 live w)) = fs w \<or>
    fs (snd (resolveDuplicate rules file1 file2 live w)) = (fs w)(Path file1 := None) \<or>
    fs (snd (resolveDuplicate rules file1 file2 live w)) = (fs w)(Path file2 := None)"
    by (rule resolveDuplicate_fs)
  show b: "fs (snd (resolveDuplicate_early file1 file2 live w)) = fs w \<or>
    fs (snd (resolveDuplicate_early file1 file2 live w)) = (fs w)(Path file1 := None) \<or>
    fs (snd (resolveDuplicate_early file1 file2 live w)) = (fs w)(Path file2 := None)"
    by (rule resolveDuplicate_early_fs)
  assume d: "Path file1 \<noteq> Path file2"
  show "fs (snd (resolveDuplicate rules file1 file2 live w)) (Path file1) = fs w (Path file1) \<or>
        fs (snd (resolveDuplicate rules file1 file2 live w)) (Path file2) = fs w (Path file2)"
    using a d by auto
  show "fs (snd (resolveDuplicate_early file1 file2 live w)) (Path file1) = fs w (Path file1) \<or>
        fs (snd (resolveDuplicate_early file1 file2 live w)) (Path file2) = fs w (Path file2)"
    using b d by auto
qed


lemma dirX: "fst (path_Split (Path fileX)) = ''/a/''"
  by (simp add: tree_defs path_Split_def LastIndex_def)

lemma dirY: "fst (path_Split (Path fileY)) = ''/b/''"
  by (simp add: tree_defs path_Split_def LastIndex_def)

lemma live_XY:
  "resolveDuplicate [ruleAB] fileX fileY True tree =
     ((True, None), \<lparr>fs = treeFs(''/b/y.png'' := None), logged = [Deleting ''/b/y.png'']\<rparr>)"
  by (simp add: resolveDuplicate_def dirX dirY ruleAB_def)
     (simp add: tree_defs os_Remove_def say_def)

theorem resolution_deletes_at_most_one_witness:
  "Path fileX \<noteq> Path fileY \<and>
   fs (snd (resolveDuplicate [ruleAB] fileX fileY True tree)) (Path fileX) = Some (plainNode [1, 2, 3]) \<and>
   fs (snd (resolveDuplicate [ruleAB] fileX fileY True tree)) (Path fileY) = None"
proof -
  have d: "Path fileX \<noteq> Path fileY" by (simp add: tree_defs)
  have gone: "fs (snd (resolveDuplicate [ruleAB] fileX fileY True tree)) (Path fileY) = None"
    by (simp add: live_XY) (simp add: tree_defs)
  have was: "fs tree (Path fileY) \<noteq> None" "fs tree (Path fileX) = Some (plainNode [1, 2, 3])"
    by (simp_all add: tree_defs)
  from resolution_deletes_at_most_one [of "[ruleAB]" fileX fileY True tree] d
  have "fs (snd (resolveDuplicate [ruleAB] fileX fileY True tree)) (Path fileX) = fs tree (Path fileX) \<or>
        fs (snd (resolveDuplicate [ruleAB] fileX fileY True tree)) (Path fileY) = fs tree (Path fileY)"
    by blast
  with gone was have "fs (snd (resolveDuplicate [ruleAB] fileX fileY True tree)) (Path fileX) = Some (plainNode [1, 2, 3])"
    by auto
  with d gone show ?thesis by blast
qed


subsection \<open>The first matching rule\<close>
















subsection \<open>Duplicate Index\<close>

lemma resolveStep_index:
  "fst (snd (resolveStep rules live file idx w)) =
     (case toChecksum (Hash file) of
        None \<Rightarrow> idx
      | Some c \<Rightarrow> fst (lookupOrInsert_spec idx c file))"
  by (simp add: resolveStep_def lookupOrInsert_spec_def
      split: option.splits sum.splits prod.splits)

lemma reportStep_index:
  "fst (snd (reportStep live file idx w)) =
     (case toChecksum (Hash file) of
        None \<Rightarrow> idx
      | Some c \<Rightarrow> fst (lookupOrInsert_spec idx c file))"
  by (simp add: reportStep_def lookupOrInsert_spec_def
      split: option.splits sum.splits prod.splits)

lemma resolveStep_panic:
  "toChecksum (Hash file) = None \<Longrightarrow> fst (resolveStep rules live file idx w) \<noteq> None"
  by (simp add: resolveStep_def)

lemma reportStep_panic:
  "toChecksum (Hash file) = None \<Longrightarrow> fst (reportStep live file idx w) \<noteq> None"
  by (simp add: reportStep_def)

lemma resolveStep_insert:
  "toChecksum (Hash file) = Some c \<Longrightarrow> idx c = None \<Longrightarrow>
   resolveStep rules live file idx w = (None, idx(c \<mapsto> file), w)"
  by (simp add: resolveStep_def)

lemma reportStep_insert:
  "toChecksum (Hash file) = Some c \<Longrightarrow> idx c = None \<Longrightarrow>
   reportStep live file idx w = (None, idx(c \<mapsto> file), w)"
  by (simp add: reportStep_def)

text \<open>What the index holds for a digest after a record went through it.\<close>

lemma index_after_step:
  assumes "idx' = (case toChecksum (Hash file) of
        None \<Rightarrow> idx
      | Some c \<Rightarrow> fst (lookupOrInsert_spec idx c file))"
  shows "idx' c = (case idx c of Some f \<Rightarrow> Some f
                   | None \<Rightarrow> if toChecksum (Hash file) = Some c then Some file else None)"
  using assms by (auto simp add: lookupOrInsert_spec_def split: option.splits)

lemma resolveLoop_keep:
  "idx c = Some f \<Longrightarrow> fst (snd (resolveLoop rules live files idx w)) c = Some f"
proof (induction files arbitrary: idx w)
  case Nil
  then show ?case by simp
next
  case (Cons fl files)
  obtain res idx' w' where step: "resolveStep rules live fl idx w = (res, idx', w')"
    by (cases "resolveStep rules live fl idx w") auto
  then have "idx' = (case toChecksum (Hash fl) of
        None \<Rightarrow> idx | Some c \<Rightarrow> fst (lookupOrInsert_spec idx c fl))"
    using resolveStep_index [of rules live fl idx w] by simp
  then have k: "idx' c = Some f" using Cons.prems by (simp add: index_after_step)
  show ?case
  proof (cases res)
    case None
    with step k Cons.IH [of idx' w'] show ?thesis by simp
  next
    case (Some e)
    with step k show ?thesis by simp
  qed
qed

lemma resolveLoop_first:
  "fst (resolveLoop rules live files idx w) = None \<Longrightarrow> idx c = None \<Longrightarrow>
   fst (snd (resolveLoop rules live files idx w)) c =
     find (\<lambda>f. toChecksum (Hash f) = Some c) files"
proof (induction files arbitrary: idx w)
  case Nil
  then show ?case by simp
next
  case (Cons fl files)
  obtain res idx' w' where step: "resolveStep rules live fl idx w = (res, idx', w')"
    by (cases "resolveStep rules live fl idx w") auto
  then have "idx' = (case toChecksum (Hash fl) of
        None \<Rightarrow> idx | Some c \<Rightarrow> fst (lookupOrInsert_spec idx c fl))"
    using resolveStep_index [of rules live fl idx w] by simp
  then have k: "idx' c = (if toChecksum (Hash fl) = Some c then Some fl else None)"
    using Cons.prems(2) by (simp add: index_after_step)
  from Cons.prems(1) step have res: "res = None"
    by (cases res) auto
  with Cons.prems(1) step have rest: "fst (resolveLoop rules live files idx' w') = None"
    by simp
  show ?case
  proof (cases "toChecksum (Hash fl) = Some c")
    case True
    with k have "idx' c = Some fl" by simp
    then have "fst (snd (resolveLoop rules live files idx' w')) c = Some fl"
      by (rule resolveLoop_keep)
    with step res True show ?thesis by simp
  next
    case False
    with k have "idx' c = None" by simp
    with rest have "fst (snd (resolveLoop rules live files idx' w')) c =
        find (\<lambda>f. toChecksum (Hash f) = Some c) files"
      by (rule Cons.IH)
    with step res False show ?thesis by simp
  qed
qed

lemma reportLoop_keep:
  "idx c = Some f \<Longrightarrow> fst (snd (reportLoop live files idx w)) c = Some f"
proof (induction files arbitrary: idx w)
  case Nil
  then show ?case by simp
next
  case (Cons fl files)
  obtain res idx' w' where step: "reportStep live fl idx w = (res, idx', w')"
    by (cases "reportStep live fl idx w") auto
  then have "idx' = (case toChecksum (Hash fl) of
        None \<Rightarrow> idx | Some c \<Rightarrow> fst (lookupOrInsert_spec idx c fl))"
    using reportStep_index [of live fl idx w] by simp
  then have k: "idx' c = Some f" using Cons.prems by (simp add: index_after_step)
  show ?case
  proof (cases res)
    case None
    with step k Cons.IH [of idx' w'] show ?thesis by simp
  next
    case (Some e)
    with step k show ?thesis by simp
  qed
qed

lemma reportLoop_first:
  "fst (reportLoop live files idx w) = None \<Longrightarrow> idx c = None \<Longrightarrow>
   fst (snd (reportLoop live files idx w)) c =
     find (\<lambda>f. toChecksum (Hash f) = Some c) files"
proof (induction files arbitrary: idx w)
  case Nil
  then show ?case by simp
next
  case (Cons fl files)
  obtain res idx' w' where step: "reportStep live fl idx w = (res, idx', w')"
    by (cases "reportStep live fl idx w") auto
  then have "idx' = (case toChecksum (Hash fl) of
        None \<Rightarrow> idx | Some c \<Rightarrow> fst (lookupOrInsert_spec idx c fl))"
    using reportStep_index [of live fl idx w] by simp
  then have k: "idx' c = (if toChecksum (Hash fl) = Some c then Some fl else None)"
    using Cons.prems(2) by (simp add: index_after_step)
  from Cons.prems(1) step have res: "res = None"
    by (cases res) auto
  with Cons.prems(1) step have rest: "fst (reportLoop live files idx' w') = None"
    by simp
  show ?case
  proof (cases "toChecksum (Hash fl) = Some c")
    case True
    with k have "idx' c = Some fl" by simp
    then have "fst (snd (reportLoop live files idx' w')) c = Some fl"
      by (rule reportLoop_keep)
    with step res True show ?thesis by simp
  next
    case False
    with k have "idx' c = None" by simp
    with rest have "fst (snd (reportLoop live files idx' w')) c =
        find (\<lambda>f. toChecksum (Hash f) = Some c) files"
      by (rule Cons.IH)
    with step res False show ?thesis by simp
  qed
qed

text \<open>
  C3. One record going through either loop changes the index exactly as the contract of
  lookup-or-insert says: with nothing stored for its digest the record is stored and nothing
  else happens, and with a record stored the index stays as it is. Over any sequence of
  records a stored record is never replaced, and after a run that ends without error the
  index holds, for every digest, the first record of the sequence with that digest.
\<close>

theorem index_keeps_first_record:
  "(toChecksum (Hash file) = Some c \<longrightarrow>
      fst (snd (resolveStep rules live file idx w)) = fst (lookupOrInsert_spec idx c file) \<and>
      fst (snd (reportStep live file idx w)) = fst (lookupOrInsert_spec idx c file) \<and>
      (idx c = None \<longrightarrow>
         resolveStep rules live file idx w = (None, idx(c \<mapsto> file), w) \<and>
         reportStep live file idx w = (None, idx(c \<mapsto> file), w)))
   \<and> (idx c = Some f \<longrightarrow>
        fst (snd (resolveLoop rules live files idx w)) c = Some f \<and>
        fst (snd (reportLoop live files idx w)) c = Some f)
   \<and> (fst (resolveLoop rules live files Map.empty w) = None \<longrightarrow>
        fst (snd (resolveLoop rules live files Map.empty w)) c =
          find (\<lambda>f. toChecksum (Hash f) = Some c) files)
   \<and> (fst (reportLoop live files Map.empty w) = None \<longrightarrow>
        fst (snd (reportLoop live files Map.empty w)) c =
          find (\<lambda>f. toChecksum (Hash f) = Some c) files)"
proof (intro conjI impI)
  assume c: "toChecksum (Hash file) = Some c"
  show "fst (snd (resolveStep rules live file idx w)) = fst (lookupOrInsert_spec idx c file)"
    using c by (simp add: resolveStep_index)
  show "fst (snd (reportStep live file idx w)) = fst (lookupOrInsert_spec idx c file)"
    using c by (simp add: reportStep_index)
  assume n: "idx c = None"
  show "resolveStep rules live file idx w = (None, idx(c \<mapsto> file), w)"
    using c n by (rule resolveStep_insert)
  show "reportStep live file idx w = (None, idx(c \<mapsto> file), w)"
    using c n by (rule reportStep_insert)
next
  assume "idx c = Some f"
  then show "fst (snd (resolveLoop rules live files idx w)) c = Some f"
    and "fst (snd (reportLoop live files idx w)) c = Some f"
    by (rule resolveLoop_keep, rule reportLoop_keep)
next
  assume "fst (resolveLoop rules live files Map.empty w) = None"
  then show "fst (snd (resolveLoop rules live files Map.empty w)) c =
          find (\<lambda>f. toChecksum (Hash f) = Some c) files"
    by (rule resolveLoop_first) simp
next
  assume "fst (reportLoop live files Map.empty w) = None"
  then show "fst (snd (reportLoop live files Map.empty w)) c =
          find (\<lambda>f. toChecksum (Hash f) = Some c) files"
    by (rule reportLoop_first) simp
qed

lemma keyD: "toChecksum digestD = Some digestD"
  by (simp add: toChecksum_def md5_Size_def digestD_def)

lemma hashes: "Hash fileX = digestD" "Hash fileY = digestD" "Hash fileZ = digestD"
  by (simp_all add: fileX_def fileY_def fileZ_def mkFile_def)

lemma readX: "readFile treeFs fileX = Inr [1, 2, 3]"
  by (simp add: readFile_def tree_defs)
lemma readY: "readFile treeFs fileY = Inr [1, 2, 3]"
  by (simp add: readFile_def tree_defs)
lemma readZ: "readFile treeFs fileZ = Inr [1, 2, 4]"
  by (simp add: readFile_def tree_defs)

lemma identXY: "isIdentical treeFs fileX fileY = Inr True"
  by (simp add: isIdentical_def readX readY compareFrom_all)

lemma dry_XY:
  "resolveDuplicate [ruleAB] fileX fileY False w = ((True, None), say (WouldDelete ''/b/y.png'') w)"
  by (simp add: resolveDuplicate_def dirX dirY ruleAB_def)
     (simp add: tree_defs)

lemma run_XY:
  "resolveLoop [ruleAB] False [fileX, fileY] Map.empty tree =
     (None, [digestD \<mapsto> fileX],
      say (WouldDelete ''/b/y.png'') (say (DuplicateFilesFound ''/b/y.png'' ''/a/x.png'') tree))"
proof -
  have 1: "resolveStep [ruleAB] False fileX Map.empty tree = (None, [digestD \<mapsto> fileX], tree)"
    by (simp add: resolveStep_def hashes keyD)
  have t: "fs tree = treeFs" by (simp add: tree_def)
  have p: "Path fileX = ''/a/x.png''" "Path fileY = ''/b/y.png''"
    by (simp_all add: tree_defs)
  have 2: "resolveStep [ruleAB] False fileY [digestD \<mapsto> fileX] tree =
     (None, [digestD \<mapsto> fileX],
      say (WouldDelete ''/b/y.png'') (say (DuplicateFilesFound ''/b/y.png'' ''/a/x.png'') tree))"
    by (simp add: resolveStep_def hashes keyD t identXY dry_XY p)
  show ?thesis by (simp add: 1 2)
qed

theorem index_keeps_first_record_witness:
  "fst (snd (resolveLoop [ruleAB] False [fileX, fileY] Map.empty tree)) digestD = Some fileX
   \<and> resolveStep [ruleAB] False fileX Map.empty tree = (None, [digestD \<mapsto> fileX], tree)
   \<and> fst (snd (resolveStep [ruleAB] False fileY [digestD \<mapsto> fileX] tree)) = [digestD \<mapsto> fileX]
   \<and> fst (snd (reportLoop True [fileY, fileZ] [digestD \<mapsto> fileX] tree)) digestD = Some fileX"
proof -
  have ok: "fst (resolveLoop [ruleAB] False [fileX, fileY] Map.empty tree) = None"
    by (subst run_XY) simp
  have first: "find (\<lambda>f. toChecksum (Hash f) = Some digestD) [fileX, fileY] = Some fileX"
    by (simp add: hashes keyD)
  have kx: "toChecksum (Hash fileX) = Some digestD" and ky: "toChecksum (Hash fileY) = Some digestD"
    by (simp_all add: hashes keyD)
  have stored: "[digestD \<mapsto> fileX] digestD = Some fileX" by simp
  have same: "fst (lookupOrInsert_spec [digestD \<mapsto> fileX] digestD fileY) = [digestD \<mapsto> fileX]"
    by (simp add: lookupOrInsert_spec_def)
  from ok first kx
    index_keeps_first_record [of fileX digestD "[ruleAB]" False Map.empty tree fileX
      "[fileX, fileY]"]
  have a: "fst (snd (resolveLoop [ruleAB] False [fileX, fileY] Map.empty tree)) digestD = Some fileX
     \<and> resolveStep [ruleAB] False fileX Map.empty tree = (None, [digestD \<mapsto> fileX], tree)"
    by (simp del: resolveLoop.simps)
  from ky stored same
    index_keeps_first_record [of fileY digestD "[ruleAB]" True "[digestD \<mapsto> fileX]" tree fileX
      "[fileY, fileZ]"]
    index_keeps_first_record [of fileY digestD "[ruleAB]" False "[digestD \<mapsto> fileX]" tree fileX
      "[fileY, fileZ]"]
  have b: "fst (snd (resolveStep [ruleAB] False fileY [digestD \<mapsto> fileX] tree)) = [digestD \<mapsto> fileX]
     \<and> fst (snd (reportLoop True [fileY, fileZ] [digestD \<mapsto> fileX] tree)) digestD = Some fileX"
    by (simp del: resolveLoop.simps reportLoop.simps)
  from a b show ?thesis by blast
qed

subsection \<open>Hash collisions\<close>

lemma isIdentical_differ:
  assumes "readFile fsys f1 = Inr c1" "readFile fsys f2 = Inr c2" "c1 \<noteq> c2"
  shows "isIdentical fsys f1 f2 = Inr False"
proof (cases "length c1 = length c2")
  case False
  with assms show ?thesis by (simp add: isIdentical_def)
next
  case True
  with assms(3) have "\<not> (\<forall>j. 0 \<le> j \<and> j < length c1 \<longrightarrow> c1 ! j = c2 ! j)"
    by (auto simp add: list_eq_iff_nth_eq)
  then have "\<not> compareFrom c1 c2 0" using compareFrom_all [of c1 c2 0] by blast
  with assms True show ?thesis by (simp add: isIdentical_def)
qed

text \<open>
  C2, as amended. When the record stored for the digest and the new record are both read and
  their contents differ, neither file is touched and the condition has a report of its own:
  in \<^verbatim>\<open>dupefile.go\<close> it is the error that ends the run, with the file system and the index
  as they were; in the earlier stage it is a log line, after which the loop goes on with the
  remaining records.
\<close>

theorem collision_without_identity_reported:
  assumes "toChecksum (Hash file) = Some c" and "idx c = Some found"
    and "readFile (fs w) found = Inr c1" and "readFile (fs w) file = Inr c2"
    and "c1 \<noteq> c2"
  shows "resolveLoop rules live (file # files) idx w =
           (Some (HashCollisionErr (Path file) (Path found)), idx, w)
       \<and> reportLoop live (file # files) idx w =
           reportLoop live files idx (say (CollisionNotIdentical (Path file) (Path found)) w)
       \<and> fs (say (CollisionNotIdentical (Path file) (Path found)) w) = fs w"
proof -
  have ni: "isIdentical (fs w) found file = Inr False"
    using assms(3-5) by (rule isIdentical_differ)
  have a: "resolveStep rules live file idx w =
      (Some (HashCollisionErr (Path file) (Path found)), idx, w)"
    using assms(1,2) ni by (simp add: resolveStep_def)
  have b: "reportStep live file idx w =
      (None, idx, say (CollisionNotIdentical (Path file) (Path found)) w)"
    using assms(1,2) ni by (simp add: reportStep_def)
  show ?thesis by (simp add: a b)
qed

theorem collision_without_identity_reported_witness:
  "resolveLoop [ruleAB] True [fileZ, fileX] [digestD \<mapsto> fileY] tree =
           (Some (HashCollisionErr ''/b/z.png'' ''/b/y.png''), [digestD \<mapsto> fileY], tree)
   \<and> reportLoop True [fileZ] [digestD \<mapsto> fileY] tree =
           (None, [digestD \<mapsto> fileY], say (CollisionNotIdentical ''/b/z.png'' ''/b/y.png'') tree)"
proof -
  have h: "toChecksum (Hash fileZ) = Some digestD" "[digestD \<mapsto> fileY] digestD = Some fileY"
    "readFile (fs tree) fileY = Inr [1, 2, 3]" "readFile (fs tree) fileZ = Inr [1, 2, 4]"
    "[1, 2, 3] \<noteq> [1, 2, 4 :: byte]"
    by (simp_all add: hashes keyD readY readZ tree_def)
  have p: "Path fileZ = ''/b/z.png''" "Path fileY = ''/b/y.png''"
    by (simp_all add: tree_defs)
  from h
    collision_without_identity_reported [of fileZ digestD "[digestD \<mapsto> fileY]" fileY tree
      "[1, 2, 3]" "[1, 2, 4]" "[ruleAB]" True "[fileX]"]
    collision_without_identity_reported [of fileZ digestD "[digestD \<mapsto> fileY]" fileY tree
      "[1, 2, 3]" "[1, 2, 4]" "[ruleAB]" True "[]"]
  show ?thesis by (simp add: p del: resolveLoop.simps reportLoop.simps(2))
qed

text \<open>
  C2 as stated fails in \<^verbatim>\<open>dupefile.go\<close>: the collision of \<^verbatim>\<open>/a/x.png\<close> and \<^verbatim>\<open>/b/z.png\<close>
  ends the run with an error, and the duplicate \<^verbatim>\<open>/b/y.png\<close> behind it, which the same run
  reports when the colliding record is absent, is never looked at.
\<close>

theorem collision_aborts_run_counterexample:
  "reportAndResolveDuplicates [ruleAB] [fileX, fileZ, fileY] False tree =
     (Some (HashCollisionErr ''/b/z.png'' ''/a/x.png''), tree)
   \<and> reportAndResolveDuplicates [ruleAB] [fileX, fileY] False tree =
     (None, say (WouldDelete ''/b/y.png'')
              (say (DuplicateFilesFound ''/b/y.png'' ''/a/x.png'') tree))"
proof -
  have t: "fs tree = treeFs" by (simp add: tree_def)
  have p: "Path fileZ = ''/b/z.png''" "Path fileX = ''/a/x.png''"
    by (simp_all add: tree_defs)
  have 1: "resolveStep [ruleAB] False fileX Map.empty tree = (None, [digestD \<mapsto> fileX], tree)"
    by (simp add: resolveStep_def hashes keyD)
  have nz: "isIdentical treeFs fileX fileZ = Inr False"
    using readX readZ by (rule isIdentical_differ) simp
  have 2: "resolveStep [ruleAB] False fileZ [digestD \<mapsto> fileX] tree =
     (Some (HashCollisionErr ''/b/z.png'' ''/a/x.png''), [digestD \<mapsto> fileX], tree)"
    by (simp add: resolveStep_def hashes keyD t nz p)
  have a: "reportAndResolveDuplicates [ruleAB] [fileX, fileZ, fileY] False tree =
     (Some (HashCollisionErr ''/b/z.png'' ''/a/x.png''), tree)"
    by (simp add: reportAndResolveDuplicates_def 1 2)
  have b: "reportAndResolveDuplicates [ruleAB] [fileX, fileY] False tree =
     (None, say (WouldDelete ''/b/y.png'')
              (say (DuplicateFilesFound ''/b/y.png'' ''/a/x.png'') tree))"
    unfolding reportAndResolveDuplicates_def by (subst run_XY) simp
  from a b show ?thesis by (rule conjI)
qed

subsection \<open>Short reads and IO errors\<close>

text \<open>
  C9, as amended. A file that opens and is read, with a byte count other than the recorded
  size, never yields a digest or a comparison: fingerprinting fails with the short-read
  error, and identity verification fails with the short-read error unless closing the file
  fails, which \<^verbatim>\<open>readFile\<close> tests first and reports as the close error. A file that is
  missing, cannot be opened or cannot be read fails with an IO error in both.
\<close>

theorem short_read_is_an_error:
  "(fsys (Path file) = Some nd \<and> \<not> openFails nd \<and> \<not> readFails nd \<and>
      int (length (content nd)) \<noteq> Size file \<longrightarrow>
        checksumFile hasher fsys file = (Some (ShortReadWrite (Path file)), file) \<and>
        checksumLoop hasher fsys n i (file # files) printed =
          (Some (ShortReadWrite (Path file)), file # files, printed) \<and>
        readFile fsys file =
          Inl (if closeFails nd then CloseErr (Path file) else ShortRead (Path file)) \<and>
        isIdentical fsys file other =
          Inl (if closeFails nd then CloseErr (Path file) else ShortRead (Path file)) \<and>
        (\<forall>c. readFile fsys other = Inr c \<longrightarrow>
           isIdentical fsys other file =
             Inl (if closeFails nd then CloseErr (Path file) else ShortRead (Path file))))
   \<and> (fsys (Path file) = None \<or>
        (\<exists>nd. fsys (Path file) = Some nd \<and> (openFails nd \<or> readFails nd)) \<longrightarrow>
        (\<exists>e. checksumFile hasher fsys file = (Some e, file) \<and> isIOError e \<and>
             checksumLoop hasher fsys n i (file # files) printed = (Some e, file # files, printed)) \<and>
        (\<exists>e. readFile fsys file = Inl e \<and> isIOError e \<and>
             isIdentical fsys file other = Inl e))"
proof (intro conjI impI)
  assume a: "fsys (Path file) = Some nd \<and> \<not> openFails nd \<and> \<not> readFails nd \<and>
      int (length (content nd)) \<noteq> Size file"
  show c: "checksumFile hasher fsys file = (Some (ShortReadWrite (Path file)), file)"
    using a by (simp add: checksumFile_def)
  show "checksumLoop hasher fsys n i (file # files) printed =
          (Some (ShortReadWrite (Path file)), file # files, printed)"
    by (simp add: c)
  show r: "readFile fsys file =
          Inl (if closeFails nd then CloseErr (Path file) else ShortRead (Path file))"
    using a by (simp add: readFile_def)
  show "isIdentical fsys file other =
          Inl (if closeFails nd then CloseErr (Path file) else ShortRead (Path file))"
    by (simp add: isIdentical_def r)
  show "\<forall>c. readFile fsys other = Inr c \<longrightarrow>
           isIdentical fsys other file =
             Inl (if closeFails nd then CloseErr (Path file) else ShortRead (Path file))"
    by (simp add: isIdentical_def r)
next
  assume a: "fsys (Path file) = None \<or>
        (\<exists>nd. fsys (Path file) = Some nd \<and> (openFails nd \<or> readFails nd))"
  then have "\<exists>e. checksumFile hasher fsys file = (Some e, file) \<and> isIOError e"
    by (auto simp add: checksumFile_def)
  then show "\<exists>e. checksumFile hasher fsys file = (Some e, file) \<and> isIOError e \<and>
             checksumLoop hasher fsys n i (file # files) printed = (Some e, file # files, printed)"
    by auto
  from a have "\<exists>e. readFile fsys file = Inl e \<and> isIOError e"
    by (auto simp add: readFile_def)
  then show "\<exists>e. readFile fsys file = Inl e \<and> isIOError e \<and>
             isIdentical fsys file other = Inl e"
    by (auto simp add: isIdentical_def)
qed

theorem short_read_is_an_error_witness:
  "calculateChecksums (\<lambda>bs. bs) shrunkFs [fileShrunk, fileX] =
     (Some (ShortReadWrite ''/a/s.png''), [fileShrunk, fileX], [])
   \<and> readFile shrunkFs fileShrunk = Inl (ShortRead ''/a/s.png'')
   \<and> (\<exists>e. readFile shrunkFs fileX = Inl e \<and> isIOError e)"
proof -
  have h: "shrunkFs (Path fileShrunk) = Some (plainNode [1, 2, 3]) \<and>
      \<not> openFails (plainNode [1, 2, 3]) \<and> \<not> readFails (plainNode [1, 2, 3]) \<and>
      int (length (content (plainNode [1, 2, 3]))) \<noteq> Size fileShrunk"
    by (simp add: shrunkFs_def fileShrunk_def mkFile_def plainNode_def)
  have g: "shrunkFs (Path fileX) = None"
    by (simp add: shrunkFs_def fileX_def mkFile_def)
  have p: "Path fileShrunk = ''/a/s.png''" "\<not> closeFails (plainNode [1, 2, 3])"
    by (simp_all add: fileShrunk_def mkFile_def plainNode_def)
  from h short_read_is_an_error [of shrunkFs fileShrunk "plainNode [1, 2, 3]" "\<lambda>bs. bs"
      "length [fileShrunk, fileX]" 0 "[fileX]" "[]"]
  have "checksumLoop (\<lambda>bs. bs) shrunkFs (length [fileShrunk, fileX]) 0 [fileShrunk, fileX] [] =
          (Some (ShortReadWrite (Path fileShrunk)), [fileShrunk, fileX], [])
     \<and> readFile shrunkFs fileShrunk = Inl (ShortRead (Path fileShrunk))"
    using p by (simp del: checksumLoop.simps list.size)
  moreover from g short_read_is_an_error [of shrunkFs fileX]
  have "\<exists>e. readFile shrunkFs fileX = Inl e \<and> isIOError e"
    by blast
  ultimately show ?thesis
    by (simp add: calculateChecksums_def p del: checksumLoop.simps list.size)
qed

text \<open>
  C9 as stated fails: for a file of three bytes recorded with five whose \<^verbatim>\<open>Close\<close> fails,
  \<^verbatim>\<open>readFile\<close> returns the close error, which is not a short-read error.
\<close>

theorem close_failure_hides_short_read_counterexample:
  "readFile shrunkCloseFs fileShrunk = Inl (CloseErr ''/a/s.png'')
   \<and> \<not> isShortReadError (CloseErr ''/a/s.png'')
   \<and> int (length (content (the (shrunkCloseFs (Path fileShrunk))))) \<noteq> Size fileShrunk"
  by (simp add: readFile_def shrunkCloseFs_def fileShrunk_def mkFile_def plainNode_def)

subsection \<open>Reports without live mode\<close>

text \<open>
  C4. The code at the failing input: with the rule keep \<^verbatim>\<open>/a/\<close>, remove \<^verbatim>\<open>/b/\<close> and live
  mode off, the pair reports \<^verbatim>\<open>/b/y.png\<close> when \<^verbatim>\<open>/a/x.png\<close> was found first and
  \<^verbatim>\<open>/a/x.png\<close> when \<^verbatim>\<open>/b/y.png\<close> was found first.
\<close>

theorem dry_run_report_depends_on_order:
  "logged (snd (resolveDuplicate [ruleAB] fileX fileY False tree)) = [WouldDelete ''/b/y.png'']
   \<and> logged (snd (resolveDuplicate [ruleAB] fileY fileX False tree)) = [WouldDelete ''/a/x.png'']"
  by (simp add: resolveDuplicate_def dirX dirY ruleAB_def)
     (simp add: tree_defs say_def)

text \<open>
  C5. The code at the failing input: with \<^verbatim>\<open>/b/y.png\<close> found first, the run without live
  mode leaves the file system alone and reports \<^verbatim>\<open>/a/x.png\<close>, while the live run removes
  \<^verbatim>\<open>/b/y.png\<close>.
\<close>

theorem dry_run_names_the_kept_file:
  "resolveDuplicate [ruleAB] fileY fileX False tree =
     ((True, None), \<lparr>fs = treeFs, logged = [WouldDelete ''/a/x.png'']\<rparr>)
   \<and> resolveDuplicate [ruleAB] fileY fileX True tree =
     ((True, None), \<lparr>fs = treeFs(''/b/y.png'' := None), logged = [Deleting ''/b/y.png'']\<rparr>)"
  by (simp add: resolveDuplicate_def dirX dirY ruleAB_def)
     (simp add: tree_defs os_Remove_def say_def)

text \<open>
  What holds in spite of the wrong name in that report: without live mode the file system is
  left as it is, and in live mode the outcome does not depend on the order of the two
  records when no rule keeps and removes the same directory.
\<close>

lemma resolveRules_dry_fs:
  "fs (snd (resolveRules rules dir1 dir2 file1 file2 False w)) = fs w"
proof (induction rules)
  case Nil
  show ?case by simp
next
  case (Cons rule rules)
  then show ?case
    by (cases "dir1 = KeepDir rule"; cases "dir2 = RemoveDir rule";
        cases "dir1 = RemoveDir rule"; cases "dir2 = KeepDir rule"; simp)
qed

lemma resolveRules_early_dry_fs:
  "fs (snd (resolveRules_early rules dir1 dir2 file1 file2 False w)) = fs w"
proof (induction rules arbitrary: w)
  case Nil
  show ?case by simp
next
  case (Cons rule rules)
  then show ?case
    by (cases "dir1 = KeepDirL rule"; cases "dir2 = RmDir rule";
        cases "dir1 = RmDir rule"; cases "dir2 = KeepDirL rule"; simp)
qed

lemma dry_run_leaves_filesystem:
  "fs (snd (resolveDuplicate rules file1 file2 False w)) = fs w"
  "fs (snd (resolveDuplicate_early file1 file2 False w)) = fs w"
  by (simp_all add: resolveDuplicate_def resolveDuplicate_early_def
      resolveRules_dry_fs resolveRules_early_dry_fs)

lemma ruleMatches_commute: "ruleMatches dir2 dir1 = ruleMatches dir1 dir2"
  by (auto simp add: ruleMatches_def fun_eq_iff)

lemma resolveRules_single_live_symmetric:
  "KeepDir rule \<noteq> RemoveDir rule \<Longrightarrow>
   resolveRules [rule] dir2 dir1 file2 file1 True w =
   resolveRules [rule] dir1 dir2 file1 file2 True w"
  by (cases "dir1 = KeepDir rule"; cases "dir2 = RemoveDir rule"; cases "dir1 = RemoveDir rule";
      cases "dir2 = KeepDir rule"; simp)

lemma live_resolution_symmetric:
  assumes "\<forall>r\<in>set rules. KeepDir r \<noteq> RemoveDir r"
  shows "resolveDuplicate rules file2 file1 True w = resolveDuplicate rules file1 file2 True w"
proof -
  let ?d1 = "fst (path_Split (Path file1))" and ?d2 = "fst (path_Split (Path file2))"
  show ?thesis
  proof (cases "find (ruleMatches ?d1 ?d2) rules")
    case None
    then show ?thesis
      by (simp add: resolveDuplicate_def resolveRules_find [of rules] ruleMatches_commute [of ?d2 ?d1])
  next
    case (Some rule)
    then have "rule \<in> set rules" by (auto simp add: find_Some_iff)
    with assms have "KeepDir rule \<noteq> RemoveDir rule" by simp
    then show ?thesis
      using Some
      by (simp add: resolveDuplicate_def resolveRules_find [of rules] ruleMatches_commute [of ?d2 ?d1]
          resolveRules_single_live_symmetric del: resolveRules.simps)
  qed
qed

end
